theory Spec2Isabelle
  imports Complex_Main "HOL-Library.Word" "HOL-Library.Char_ord" "HOL-Library.List_Lexorder"
    "HOL-Library.Multiset"
begin

section \<open>Data model of dircache.cpp\<close>

text \<open>
  The platform's \<open>struct dirent\<close> (Linux, LP64).  \<open>d_name\<close> holds the bytes of the
  entry name in front of the terminating NUL of the C string.
\<close>

record dirent =
  d_ino :: "64 word"
  d_off :: "64 word"
  d_reclen :: "16 word"
  d_type :: "8 word"
  d_name :: string

text \<open>
  \<open>struct dirent_t\<close>: the cached snapshot of one directory.  \<open>nref\<close> is the
  \<open>std::atomic_uint32_t\<close> reference count, \<open>addedat\<close> the time of population.
\<close>

record dirent_t =
  entries :: "dirent list"
  nref :: "32 word"
  addedat :: real

text \<open>
  \<open>struct dircontext_t\<close>: the handle.  \<open>pos\<close> is a \<open>size_t\<close> that the code only
  ever sets to values below \<open>entries.size()\<close> plus one, so it never wraps and is a
  natural number here; \<open>ent\<close> is the pointer to the snapshot, an address of the heap below.
\<close>

record dircontext_t =
  pos :: nat
  ent :: nat

text \<open>
  What a call does to the outside and to the shared map, in program order: the lock
  calls on \<open>dir_db_lock()\<close>, the accesses to the \<open>dir_db()\<close> map, and the calls
  of \<open>opendir(3)\<close> and \<open>scandir(3)\<close> on storage.
\<close>

datatype event =
    EvReadLock
  | EvWriteLock
  | EvUnlock
  | EvFind string
  | EvInsert string
  | EvClear
  | EvOpendir string
  | EvScandir string

text \<open>
  The process state: \<open>dirdb\<close> is the \<open>std::unordered_map<std::string, dirent_t*>\<close>,
  \<open>heap\<close> holds the objects made by \<open>new dirent_t\<close> (address = index; a cell is
  \<open>None\<close> once the object has been deleted), \<open>trace\<close> the events so far.
\<close>

record cache =
  dirdb :: "string \<rightharpoonup> nat"
  heap :: "dirent_t option list"
  trace :: "event list"

text \<open>
  The storage the cache sits in front of, as the libc calls see it at the time of one call:
  whether \<open>opendir(path)\<close> succeeds, the entries \<open>scandir(path)\<close> reads in the order
  the directory yields them (\<open>None\<close>: scandir returns -1), and the monotonic clock.
\<close>

record storage =
  can_open :: "string \<Rightarrow> bool"
  listing :: "string \<Rightarrow> dirent list option"
  clock :: real

section \<open>Library functions the code calls\<close>

text \<open>
  \<open>strcmp(3)\<close> on the names: bytes compared as \<open>unsigned char\<close>, the end of a string
  counting as the byte 0; the result is the difference at the first place that differs.
\<close>

fun strcmp :: "string \<Rightarrow> string \<Rightarrow> int" where
  "strcmp [] [] = 0"
| "strcmp [] (y # ys) = - int (of_char y)"
| "strcmp (x # xs) [] = int (of_char x)"
| "strcmp (x # xs) (y # ys) =
     (if x = y then strcmp xs ys else int (of_char x) - int (of_char y))"

text \<open>
  \<open>qsort(3)\<close> with a comparator that returns a negative, zero or positive \<open>int\<close>:
  an insertion sort stands for it (POSIX fixes no algorithm).
\<close>

fun qsort_insert :: "('a \<Rightarrow> 'a \<Rightarrow> int) \<Rightarrow> 'a \<Rightarrow> 'a list \<Rightarrow> 'a list" where
  "qsort_insert cmp x [] = [x]"
| "qsort_insert cmp x (y # ys) =
     (if cmp x y \<le> 0 then x # y # ys else y # qsort_insert cmp x ys)"

definition qsort :: "('a \<Rightarrow> 'a \<Rightarrow> int) \<Rightarrow> 'a list \<Rightarrow> 'a list" where
  "qsort cmp xs = foldr (qsort_insert cmp) xs []"

text \<open>
  \<open>scandir(3)\<close>: reads the directory, keeps the entries on which the filter returns
  non-zero, sorts them with \<open>qsort\<close> and the comparator; \<open>None\<close> is the return value -1.
\<close>

definition libc_scandir ::
  "storage \<Rightarrow> string \<Rightarrow> (dirent \<Rightarrow> int) \<Rightarrow> (dirent \<Rightarrow> dirent \<Rightarrow> int) \<Rightarrow> dirent list option" where
  "libc_scandir fs path flt cmp =
     (case listing fs path of
        None \<Rightarrow> None
      | Some raw \<Rightarrow> Some (qsort cmp (filter (\<lambda>e. flt e \<noteq> 0) raw)))"

section \<open>Heap and trace helpers\<close>

definition snapshot :: "cache \<Rightarrow> nat \<Rightarrow> dirent_t option" where
  "snapshot s a = (if a < length (heap s) then heap s ! a else None)"

definition new_dirent_t :: "dirent_t \<Rightarrow> cache \<Rightarrow> nat \<times> cache" where
  "new_dirent_t d s = (length (heap s), s\<lparr>heap := heap s @ [Some d]\<rparr>)"

definition emit :: "event \<Rightarrow> cache \<Rightarrow> cache" where
  "emit ev s = s\<lparr>trace := trace s @ [ev]\<rparr>"

section \<open>The cache engine\<close>

text \<open>
  In every function below the outer \<open>None\<close> is the dereference of a pointer to no live
  \<open>dirent_t\<close>, which C++ leaves undefined.
\<close>

text \<open>\<open>dc_build_around_ent\<close>: a new handle at position 0, the reference count incremented.\<close>

definition dc_build_around_ent :: "nat \<Rightarrow> cache \<Rightarrow> (dircontext_t \<times> cache) option" where
  "dc_build_around_ent dent s =
     (case snapshot s dent of
        None \<Rightarrow> None
      | Some d \<Rightarrow>
          Some (\<lparr>pos = 0, ent = dent\<rparr>,
                s\<lparr>heap := (heap s)[dent := Some (d\<lparr>nref := nref d + 1\<rparr>)]\<rparr>))"

text \<open>
  \<open>dc_find_or_populate\<close>.  The map lookup comes first and takes no lock; on a miss
  \<open>opendir\<close> and then \<open>scandir\<close> (filter constantly 1, comparator \<open>strcmp\<close> on the
  names) run, the loop copies \<open>namelist[0..r)\<close> into the new \<open>dirent_t\<close>, and the
  insertion into the map is between \<open>write_lock\<close> and \<open>unlock\<close>.
  \<open>unordered_map::insert\<close> leaves an existing key alone.  The \<open>DIR*\<close> that
  \<open>opendir\<close> returned is only tested, never read or closed.
  The inner \<open>None\<close> is the \<open>nullptr\<close> return.
\<close>

definition db_insert :: "string \<Rightarrow> nat \<Rightarrow> cache \<Rightarrow> cache" where
  "db_insert path a s =
     emit (EvInsert path)
       (case dirdb s path of
          None \<Rightarrow> s\<lparr>dirdb := (dirdb s)(path \<mapsto> a)\<rparr>
        | Some _ \<Rightarrow> s)"

definition push_back_all :: "dirent list \<Rightarrow> dirent list \<Rightarrow> dirent list" where
  "push_back_all es namelist = foldl (\<lambda>acc e. acc @ [e]) es namelist"

definition dc_find_or_populate ::
  "storage \<Rightarrow> string \<Rightarrow> cache \<Rightarrow> (dircontext_t option \<times> cache) option" where
  "dc_find_or_populate fs path s0 =
     (let s1 = emit (EvFind path) s0 in
      case dirdb s1 path of
        Some a \<Rightarrow> map_option (\<lambda>(ctx, s). (Some ctx, s)) (dc_build_around_ent a s1)
      | None \<Rightarrow>
          (let s2 = emit (EvOpendir path) s1 in
           if \<not> can_open fs path then Some (None, s2)
           else
             (let s3 = emit (EvScandir path) s2 in
              case libc_scandir fs path (\<lambda>d. 1) (\<lambda>a b. strcmp (d_name a) (d_name b)) of
                None \<Rightarrow> Some (None, s3)
              | Some namelist \<Rightarrow>
                  (let d = \<lparr>entries = push_back_all [] namelist, nref = 0, addedat = clock fs\<rparr>;
                       (dent, s4) = new_dirent_t d s3;
                       s5 = emit EvWriteLock s4;
                       s6 = db_insert path dent s5;
                       s7 = emit EvUnlock s6
                   in map_option (\<lambda>(ctx, s). (Some ctx, s)) (dc_build_around_ent dent s7)))))"

text \<open>
  \<open>dc_close\<close>: decrements the reference count (an unsigned 32-bit counter, so it wraps)
  and frees the handle; the snapshot itself is left alone.
\<close>

definition dc_close :: "dircontext_t \<Rightarrow> cache \<Rightarrow> cache option" where
  "dc_close context s =
     (case snapshot s (ent context) of
        None \<Rightarrow> None
      | Some d \<Rightarrow> Some (s\<lparr>heap := (heap s)[ent context := Some (d\<lparr>nref := nref d - 1\<rparr>)]\<rparr>))"

text \<open>\<open>dircache_invalidate\<close>: \<open>clear()\<close> on the map of raw pointers, under the write lock.\<close>

definition dircache_invalidate :: "cache \<Rightarrow> cache" where
  "dircache_invalidate s0 =
     (let s1 = emit EvWriteLock s0;
          s2 = emit EvClear (s1\<lparr>dirdb := Map.empty\<rparr>)
      in emit EvUnlock s2)"

text \<open>
  \<open>dircache_readdir\<close>: the inner \<open>None\<close> is the \<open>nullptr\<close> return, \<open>Some e\<close> the
  record that the returned pointer \<open>&entries[pos]\<close> leads to.
\<close>

definition dircache_readdir ::
  "cache \<Rightarrow> dircontext_t \<Rightarrow> (dirent option \<times> dircontext_t) option" where
  "dircache_readdir s dir =
     (case snapshot s (ent dir) of
        None \<Rightarrow> None
      | Some d \<Rightarrow>
          if pos dir \<ge> length (entries d) then Some (None, dir)
          else Some (Some (entries d ! pos dir), dir\<lparr>pos := pos dir + 1\<rparr>))"

definition dircache_opendir ::
  "storage \<Rightarrow> string \<Rightarrow> cache \<Rightarrow> (dircontext_t option \<times> cache) option" where
  "dircache_opendir fs path s = dc_find_or_populate fs path s"

definition dircache_rewinddir :: "dircontext_t \<Rightarrow> dircontext_t" where
  "dircache_rewinddir dir = dir\<lparr>pos := 0\<rparr>"

text \<open>\<open>dircache_telldir\<close> returns \<open>pos\<close> converted to \<open>long\<close>.\<close>

definition dircache_telldir :: "dircontext_t \<Rightarrow> 64 word" where
  "dircache_telldir dir = of_nat (pos dir)"

text \<open>
  \<open>dircache_seekdir\<close>: \<open>loc\<close> is a \<open>long\<close>; the comparison with \<open>entries.size()\<close>
  converts it to \<open>unsigned long\<close>, and so does the assignment to \<open>pos\<close>.
\<close>

definition dircache_seekdir :: "cache \<Rightarrow> dircontext_t \<Rightarrow> 64 word \<Rightarrow> dircontext_t option" where
  "dircache_seekdir s dir loc =
     (case snapshot s (ent dir) of
        None \<Rightarrow> None
      | Some d \<Rightarrow>
          if unat loc \<ge> length (entries d) then Some dir
          else Some (dir\<lparr>pos := unat loc\<rparr>))"

definition dircache_closedir :: "dircontext_t \<Rightarrow> cache \<Rightarrow> cache option" where
  "dircache_closedir dir s = dc_close dir s"

text \<open>
  \<open>dircache_scandir\<close>.  The result is the returned \<open>int\<close> and what \<open>*namelist\<close> was set
  to (\<open>None\<close>: not written): the pointers \<open>&e\<close> as pairs of the snapshot's address and
  the index in its \<open>entries\<close>.  \<open>filter\<close> and \<open>compare\<close> may be null pointers
  (\<open>None\<close>); the comparator is called on the records the two pointers lead to.  The
  handle from \<open>dc_find_or_populate\<close> is not closed.
\<close>

definition scandir_skip :: "(dirent \<Rightarrow> int) option \<Rightarrow> dirent \<Rightarrow> bool" where
  "scandir_skip flt e = (case flt of None \<Rightarrow> False | Some f \<Rightarrow> f e \<noteq> 0)"

definition scandir_collect ::
  "(dirent \<Rightarrow> int) option \<Rightarrow> nat \<Rightarrow> dirent list \<Rightarrow> (nat \<times> nat) list" where
  "scandir_collect flt a es =
     foldl (\<lambda>acc i. if scandir_skip flt (es ! i) then acc else acc @ [(a, i)]) [] [0..<length es]"

definition dircache_scandir ::
  "storage \<Rightarrow> string \<Rightarrow> (dirent \<Rightarrow> int) option \<Rightarrow> (dirent \<Rightarrow> dirent \<Rightarrow> int) option \<Rightarrow> cache
     \<Rightarrow> ((int \<times> (nat \<times> nat) list option) \<times> cache) option" where
  "dircache_scandir fs dirp flt compare s =
     (case dc_find_or_populate fs dirp s of
        None \<Rightarrow> None
      | Some (None, s') \<Rightarrow> Some ((- 1, None), s')
      | Some (Some ctx, s') \<Rightarrow>
          (case snapshot s' (ent ctx) of
             None \<Rightarrow> None
           | Some d \<Rightarrow>
               (let es = entries d;
                    collected = scandir_collect flt (ent ctx) es;
                    n = length collected;
                    namelist =
                      (case compare of
                         Some cmp \<Rightarrow>
                           if n \<noteq> 0 then qsort (\<lambda>p q. cmp (es ! snd p) (es ! snd q)) collected
                           else collected
                       | None \<Rightarrow> collected)
                in Some ((int n, Some namelist), s'))))"

text \<open>The records a returned \<open>namelist\<close> points to.\<close>

definition deref_entry :: "cache \<Rightarrow> nat \<times> nat \<Rightarrow> dirent option" where
  "deref_entry s p =
     (case snapshot s (fst p) of
        None \<Rightarrow> None
      | Some d \<Rightarrow> if snd p < length (entries d) then Some (entries d ! snd p) else None)"

section \<open>Sequences of calls\<close>

text \<open>\<open>n\<close> calls of \<open>dircache_readdir\<close> in a row on one handle, with what each returned.\<close>

fun readdir_n :: "nat \<Rightarrow> cache \<Rightarrow> dircontext_t \<Rightarrow> (dirent option list \<times> dircontext_t) option" where
  "readdir_n 0 s dir = Some ([], dir)"
| "readdir_n (Suc n) s dir =
     (case dircache_readdir s dir of
        None \<Rightarrow> None
      | Some (r, dir') \<Rightarrow>
          (case readdir_n n s dir' of
             None \<Rightarrow> None
           | Some (rs, dir'') \<Rightarrow> Some (r # rs, dir'')))"

text \<open>The calls that change the shared state, and a run of them.\<close>

datatype call =
    Opendir storage string
  | Closedir dircontext_t
  | Scandir storage string "(dirent \<Rightarrow> int) option" "(dirent \<Rightarrow> dirent \<Rightarrow> int) option"
  | Invalidate

fun step :: "call \<Rightarrow> cache \<Rightarrow> cache option" where
  "step (Opendir fs path) s = map_option snd (dircache_opendir fs path s)"
| "step (Closedir dir) s = dircache_closedir dir s"
| "step (Scandir fs path flt cmp) s = map_option snd (dircache_scandir fs path flt cmp s)"
| "step Invalidate s = Some (dircache_invalidate s)"

fun run :: "call list \<Rightarrow> cache \<Rightarrow> cache option" where
  "run [] s = Some s"
| "run (c # cs) s = (case step c s of None \<Rightarrow> None | Some s' \<Rightarrow> run cs s')"

text \<open>The storage calls in a trace.\<close>

fun is_scan :: "event \<Rightarrow> bool" where
  "is_scan (EvOpendir p) = True"
| "is_scan (EvScandir p) = True"
| "is_scan ev = False"

definition scan_calls :: "event list \<Rightarrow> event list" where
  "scan_calls tr = filter is_scan tr"

text \<open>
  The lock discipline on a trace: a lookup in the map needs the lock held (shared or
  exclusive), an insertion or a clear needs it held exclusively.
\<close>

datatype lock_mode = Unlocked | Shared | Exclusive

fun lock_ok :: "lock_mode \<Rightarrow> event list \<Rightarrow> bool" where
  "lock_ok m [] = True"
| "lock_ok m (EvReadLock # es) = lock_ok Shared es"
| "lock_ok m (EvWriteLock # es) = lock_ok Exclusive es"
| "lock_ok m (EvUnlock # es) = lock_ok Unlocked es"
| "lock_ok m (EvFind p # es) = (m \<noteq> Unlocked \<and> lock_ok m es)"
| "lock_ok m (EvInsert p # es) = (m = Exclusive \<and> lock_ok m es)"
| "lock_ok m (EvClear # es) = (m = Exclusive \<and> lock_ok m es)"
| "lock_ok m (EvOpendir p # es) = lock_ok m es"
| "lock_ok m (EvScandir p # es) = lock_ok m es"

text \<open>
  The position invariant of a handle: its snapshot is live and \<open>pos\<close> is at most the
  number of records.
\<close>

definition handle_ok :: "cache \<Rightarrow> dircontext_t \<Rightarrow> bool" where
  "handle_ok s dir =
     (case snapshot s (ent dir) of None \<Rightarrow> False | Some d \<Rightarrow> pos dir \<le> length (entries d))"

text \<open>A call keeps the records of every live snapshot (and its time of population).\<close>

definition keeps_records :: "cache \<Rightarrow> cache \<Rightarrow> bool" where
  "keeps_records s s' =
     (\<forall>a d. snapshot s a = Some d \<longrightarrow>
        (\<exists>d'. snapshot s' a = Some d' \<and> entries d' = entries d \<and> addedat d' = addedat d))"

text \<open>The scan primitive fails on a path: \<open>opendir\<close> fails, or \<open>scandir\<close> returns -1.\<close>

definition scan_fails :: "storage \<Rightarrow> string \<Rightarrow> bool" where
  "scan_fails fs path = (\<not> can_open fs path \<or> listing fs path = None)"

text \<open>An entry name is a C string: no NUL among its bytes.\<close>

definition valid_name :: "string \<Rightarrow> bool" where
  "valid_name n = (CHR 0x00 \<notin> set n)"

text \<open>The records of the snapshot that the handle of a successful open refers to.\<close>

definition opened_records :: "storage \<Rightarrow> string \<Rightarrow> cache \<Rightarrow> dirent list option" where
  "opened_records fs path s =
     (case dircache_opendir fs path s of
        Some (Some h, s') \<Rightarrow> map_option entries (snapshot s' (ent h))
      | _ \<Rightarrow> None)"

section \<open>Example inputs\<close>

text \<open>
  A directory \<open>tree\<close> whose entries storage yields in the order b, a, c; the cache before
  any call, and the cache after the first \<open>dircache_opendir("tree")\<close>.
\<close>

definition ex_a :: dirent where
  "ex_a = \<lparr>d_ino = 11, d_off = 1, d_reclen = 24, d_type = 8, d_name = ''a''\<rparr>"

definition ex_b :: dirent where
  "ex_b = \<lparr>d_ino = 12, d_off = 2, d_reclen = 24, d_type = 8, d_name = ''b''\<rparr>"

definition ex_c :: dirent where
  "ex_c = \<lparr>d_ino = 13, d_off = 3, d_reclen = 24, d_type = 4, d_name = ''c''\<rparr>"

definition ex_fs :: storage where
  "ex_fs = \<lparr>can_open = (\<lambda>p. p = ''tree''),
            listing = (\<lambda>p. if p = ''tree'' then Some [ex_b, ex_a, ex_c] else None),
            clock = 5\<rparr>"

definition empty_cache :: cache where
  "empty_cache = \<lparr>dirdb = Map.empty, heap = [], trace = []\<rparr>"

definition ex_cache :: cache where
  "ex_cache = \<lparr>dirdb = [''tree'' \<mapsto> 0],
               heap = [Some \<lparr>entries = [ex_a, ex_b, ex_c], nref = 1, addedat = 5\<rparr>],
               trace = [EvFind ''tree'', EvOpendir ''tree'', EvScandir ''tree'',
                        EvWriteLock, EvInsert ''tree'', EvUnlock]\<rparr>"

text \<open>
  The example cache after the handle is closed, and after \<open>dircache_invalidate\<close> on top;
  a storage where nothing can be opened any more; a storage that yields the same entries
  in another order; a filter that accepts the names starting with \<open>a\<close>.
\<close>

definition ex_closed :: cache where
  "ex_closed =
     ex_cache\<lparr>heap := [Some \<lparr>entries = [ex_a, ex_b, ex_c], nref = 0, addedat = 5\<rparr>]\<rparr>"

definition ex_unlinked :: cache where
  "ex_unlinked =
     \<lparr>dirdb = Map.empty,
      heap = [Some \<lparr>entries = [ex_a, ex_b, ex_c], nref = 0, addedat = 5\<rparr>],
      trace = [EvFind ''tree'', EvOpendir ''tree'', EvScandir ''tree'',
               EvWriteLock, EvInsert ''tree'', EvUnlock,
               EvWriteLock, EvClear, EvUnlock]\<rparr>"

definition ex_gone :: storage where
  "ex_gone = \<lparr>can_open = (\<lambda>p. False), listing = (\<lambda>p. None), clock = 9\<rparr>"

definition ex_fs2 :: storage where
  "ex_fs2 = \<lparr>can_open = (\<lambda>p. p = ''tree''),
             listing = (\<lambda>p. if p = ''tree'' then Some [ex_c, ex_b, ex_a] else None),
             clock = 7\<rparr>"

definition ex_filter :: "dirent \<Rightarrow> int" where
  "ex_filter e = (if take 1 (d_name e) = ''a'' then 1 else 0)"

section \<open>The example cache is what the first open produces\<close>

lemma push_back_all_eq: "push_back_all es xs = es @ xs"
  unfolding push_back_all_def by (induction xs arbitrary: es) simp_all

lemma ex_names: "d_name ex_a = ''a''" "d_name ex_b = ''b''" "d_name ex_c = ''c''"
  by (simp_all add: ex_a_def ex_b_def ex_c_def)

lemma ex_sorted:
  "qsort (\<lambda>a b. strcmp (d_name a) (d_name b)) [ex_b, ex_a, ex_c] = [ex_a, ex_b, ex_c]"
  by (simp add: qsort_def ex_names)

lemma ex_opendir:
  "dircache_opendir ex_fs ''tree'' empty_cache = Some (Some \<lparr>pos = 0, ent = 0\<rparr>, ex_cache)"
  by (simp add: dircache_opendir_def dc_find_or_populate_def emit_def empty_cache_def ex_fs_def
      libc_scandir_def ex_sorted push_back_all_eq new_dirent_t_def db_insert_def
      dc_build_around_ent_def snapshot_def ex_cache_def)

section \<open>Sequential reading\<close>

lemma readdir_n_end:
  "snapshot s (ent dir) = Some d \<Longrightarrow> length (entries d) \<le> pos dir \<Longrightarrow>
   readdir_n k s dir = Some (replicate k None, dir)"
  by (induction k) (simp_all add: dircache_readdir_def)

lemma readdir_n_records:
  "snapshot s (ent dir) = Some d \<Longrightarrow> pos dir + m \<le> length (entries d) \<Longrightarrow>
   readdir_n m s dir =
     Some (map Some (take m (drop (pos dir) (entries d))), dir\<lparr>pos := pos dir + m\<rparr>)"
proof (induction m arbitrary: dir)
  case 0
  then show ?case by simp
next
  case (Suc m)
  let ?dir' = "dir\<lparr>pos := pos dir + 1\<rparr>"
  from Suc.prems have lt: "pos dir < length (entries d)" by simp
  have rd: "dircache_readdir s dir = Some (Some (entries d ! pos dir), ?dir')"
    using Suc.prems(1) lt by (simp add: dircache_readdir_def)
  have "readdir_n m s ?dir' =
      Some (map Some (take m (drop (pos ?dir') (entries d))), ?dir'\<lparr>pos := pos ?dir' + m\<rparr>)"
    using Suc.prems by (intro Suc.IH) simp_all
  moreover have "take (Suc m) (drop (pos dir) (entries d)) =
      entries d ! pos dir # take m (drop (Suc (pos dir)) (entries d))"
    using lt by (simp add: Cons_nth_drop_Suc [symmetric])
  ultimately show ?case using rd by simp
qed

lemma readdir_n_add:
  "readdir_n m s dir = Some (rs, dir') \<Longrightarrow> readdir_n k s dir' = Some (rs', dir'') \<Longrightarrow>
   readdir_n (m + k) s dir = Some (rs @ rs', dir'')"
  by (induction m arbitrary: dir rs) (auto split: option.splits prod.splits)

text \<open>
  Claim C6.  On a handle at position 0 over a snapshot with N records, N + k calls of
  \<open>dircache_readdir\<close> return the N records in order and then \<open>nullptr\<close> k times; the
  handle then stands at N, and a further call returns \<open>nullptr\<close> and leaves it as it is.
\<close>

theorem sequential_exhaustion:
  assumes "snapshot s (ent dir) = Some d" and "pos dir = 0"
  shows "readdir_n (length (entries d) + k) s dir =
           Some (map Some (entries d) @ replicate k None, dir\<lparr>pos := length (entries d)\<rparr>)
         \<and> dircache_readdir s (dir\<lparr>pos := length (entries d)\<rparr>) =
           Some (None, dir\<lparr>pos := length (entries d)\<rparr>)"
proof -
  let ?end = "dir\<lparr>pos := length (entries d)\<rparr>"
  have a: "readdir_n (length (entries d)) s dir = Some (map Some (entries d), ?end)"
    using readdir_n_records [of s dir d "length (entries d)"] assms by simp
  have b: "readdir_n k s ?end = Some (replicate k None, ?end)"
    using assms(1) by (intro readdir_n_end [where d = d]) simp_all
  have c: "dircache_readdir s ?end = Some (None, ?end)"
    using assms(1) by (simp add: dircache_readdir_def)
  from readdir_n_add [OF a b] c show ?thesis by simp
qed

theorem sequential_exhaustion_witness:
  "snapshot ex_cache (ent \<lparr>pos = 0, ent = 0\<rparr>) =
     Some \<lparr>entries = [ex_a, ex_b, ex_c], nref = 1, addedat = 5\<rparr> \<and>
   pos \<lparr>pos = 0, ent = 0\<rparr> = 0 \<and>
   readdir_n (3 + 2) ex_cache \<lparr>pos = 0, ent = 0\<rparr> =
     Some ([Some ex_a, Some ex_b, Some ex_c, None, None], \<lparr>pos = 3, ent = 0\<rparr>) \<and>
   dircache_readdir ex_cache \<lparr>pos = 3, ent = 0\<rparr> = Some (None, \<lparr>pos = 3, ent = 0\<rparr>)"
proof -
  have live: "snapshot ex_cache (ent \<lparr>pos = 0, ent = 0\<rparr>) =
      Some \<lparr>entries = [ex_a, ex_b, ex_c], nref = 1, addedat = 5\<rparr>"
    by (simp add: snapshot_def ex_cache_def)
  have start: "pos \<lparr>pos = 0, ent = 0\<rparr> = 0" by simp
  from sequential_exhaustion [OF live start, of 2] live show ?thesis
    by (simp add: eval_nat_numeral)
qed

section \<open>The position of a handle\<close>

text \<open>
  Claim C10.  A handle made by \<open>dc_build_around_ent\<close> starts at position 0 within its
  snapshot; \<open>dircache_readdir\<close>, \<open>dircache_rewinddir\<close> and \<open>dircache_seekdir\<close> keep
  the position at most the number of records; and when \<open>dircache_readdir\<close> returns a
  record, the index it read at is below the number of records.
\<close>

theorem handle_position_invariant:
  "(dc_build_around_ent a s = Some (fresh, s') \<longrightarrow> pos fresh = 0 \<and> handle_ok s' fresh) \<and>
   (handle_ok s dir \<longrightarrow>
      (\<exists>r dir'. dircache_readdir s dir = Some (r, dir') \<and> handle_ok s dir' \<and>
         (\<forall>e. r = Some e \<longrightarrow>
            (\<exists>d. snapshot s (ent dir) = Some d \<and> pos dir < length (entries d) \<and>
                 e = entries d ! pos dir))) \<and>
      handle_ok s (dircache_rewinddir dir) \<and>
      (\<exists>dir'. dircache_seekdir s dir loc = Some dir' \<and> handle_ok s dir'))"
proof (intro conjI impI)
  assume "dc_build_around_ent a s = Some (fresh, s')"
  then show "pos fresh = 0" and "handle_ok s' fresh"
    by (auto simp: dc_build_around_ent_def handle_ok_def snapshot_def split: option.splits if_splits)
next
  assume ok: "handle_ok s dir"
  then obtain d where d: "snapshot s (ent dir) = Some d" and le: "pos dir \<le> length (entries d)"
    by (auto simp: handle_ok_def split: option.splits)
  show "\<exists>r dir'. dircache_readdir s dir = Some (r, dir') \<and> handle_ok s dir' \<and>
         (\<forall>e. r = Some e \<longrightarrow>
            (\<exists>d. snapshot s (ent dir) = Some d \<and> pos dir < length (entries d) \<and>
                 e = entries d ! pos dir))"
    using d le by (auto simp: dircache_readdir_def handle_ok_def)
  show "handle_ok s (dircache_rewinddir dir)"
    using d by (simp add: dircache_rewinddir_def handle_ok_def)
  show "\<exists>dir'. dircache_seekdir s dir loc = Some dir' \<and> handle_ok s dir'"
    using d le by (auto simp: dircache_seekdir_def handle_ok_def)
qed

theorem handle_position_invariant_witness:
  "dc_build_around_ent 0 ex_cache =
     Some (\<lparr>pos = 0, ent = 0\<rparr>,
           ex_cache\<lparr>heap := [Some \<lparr>entries = [ex_a, ex_b, ex_c], nref = 2, addedat = 5\<rparr>]\<rparr>) \<and>
   handle_ok (ex_cache\<lparr>heap := [Some \<lparr>entries = [ex_a, ex_b, ex_c], nref = 2, addedat = 5\<rparr>]\<rparr>)
     \<lparr>pos = 0, ent = 0\<rparr> \<and>
   handle_ok ex_cache \<lparr>pos = 2, ent = 0\<rparr> \<and>
   dircache_readdir ex_cache \<lparr>pos = 2, ent = 0\<rparr> = Some (Some ex_c, \<lparr>pos = 3, ent = 0\<rparr>) \<and>
   handle_ok ex_cache \<lparr>pos = 3, ent = 0\<rparr> \<and>
   handle_ok ex_cache (dircache_rewinddir \<lparr>pos = 2, ent = 0\<rparr>) \<and>
   dircache_seekdir ex_cache \<lparr>pos = 2, ent = 0\<rparr> 1 = Some \<lparr>pos = 1, ent = 0\<rparr> \<and>
   handle_ok ex_cache \<lparr>pos = 1, ent = 0\<rparr>"
  using handle_position_invariant [of 0 ex_cache "\<lparr>pos = 0, ent = 0\<rparr>"
      "ex_cache\<lparr>heap := [Some \<lparr>entries = [ex_a, ex_b, ex_c], nref = 2, addedat = 5\<rparr>]\<rparr>"
      "\<lparr>pos = 2, ent = 0\<rparr>" 1]
  by (simp add: dc_build_around_ent_def snapshot_def ex_cache_def handle_ok_def
      dircache_readdir_def dircache_rewinddir_def dircache_seekdir_def)

section \<open>Seeking\<close>

text \<open>What \<open>dircache_seekdir\<close> does on a live handle: the position moves exactly when
  the token, read as unsigned, is below the number of records.\<close>

lemma dircache_seekdir_pos:
  "snapshot s (ent dir) = Some d \<Longrightarrow>
   dircache_seekdir s dir loc =
     Some (if unat loc < length (entries d) then dir\<lparr>pos := unat loc\<rparr> else dir)"
  by (simp add: dircache_seekdir_def)

lemma long_as_unsigned:
  fixes loc :: "64 word"
  shows "sint loc < 0 \<Longrightarrow> 2 ^ 63 \<le> unat loc"
    and "0 \<le> sint loc \<Longrightarrow> int (unat loc) = sint loc"
proof -
  have s: "sint loc = signed_take_bit 63 (uint loc)"
    using sint_uint [of loc] by simp
  have small: "sint loc = uint loc" if "uint loc < 2 ^ 63"
  proof -
    have "- (2 ^ 63) \<le> (0::int)" by simp
    also have "0 \<le> uint loc" by simp
    finally have "signed_take_bit 63 (uint loc) = uint loc"
      using that by (rule signed_take_bit_int_eq_self)
    with s show ?thesis by simp
  qed
  have big: "sint loc < 0" if "2 ^ 63 \<le> uint loc"
  proof -
    from that have "signed_take_bit 63 (uint loc) \<le> uint loc - 2 ^ Suc 63"
      by (rule signed_take_bit_int_less_eq)
    moreover have "uint loc < 2 ^ Suc 63" using uint_lt2p [of loc] by simp
    ultimately show ?thesis unfolding s by linarith
  qed
  show "2 ^ 63 \<le> unat loc" if "sint loc < 0"
  proof (rule ccontr)
    assume "\<not> 2 ^ 63 \<le> unat loc"
    then have "unat loc < 2 ^ 63" by simp
    then have "int (unat loc) < int (2 ^ 63)" by (simp only: of_nat_less_iff)
    then have "uint loc < 2 ^ 63" unfolding uint_nat [of loc] by simp
    from small [OF this] that show False by simp
  qed
  show "int (unat loc) = sint loc" if "0 \<le> sint loc"
  proof -
    from that big have "uint loc < 2 ^ 63" by fastforce
    from small [OF this] show ?thesis unfolding uint_nat [of loc] by simp
  qed
qed

text \<open>
  What \<open>dircache_seekdir\<close> does with the token read as the \<open>long\<close> it is, on a
  snapshot of fewer than \<open>2 ^ 63\<close> records: below the number of records the position
  is set; negative, at the number of records or beyond it, nothing happens.
\<close>

lemma dircache_seekdir_long:
  assumes "snapshot s (ent dir) = Some d" and "length (entries d) < 2 ^ 63"
  shows "dircache_seekdir s dir loc =
     Some (if 0 \<le> sint loc \<and> sint loc < int (length (entries d))
           then dir\<lparr>pos := nat (sint loc)\<rparr> else dir)"
proof (cases "0 \<le> sint loc")
  case True
  then have u: "int (unat loc) = sint loc" by (rule long_as_unsigned)
  then have "unat loc = nat (sint loc)" by linarith
  moreover from u have "unat loc < length (entries d) \<longleftrightarrow> sint loc < int (length (entries d))"
    by linarith
  ultimately show ?thesis using assms(1) True by (simp add: dircache_seekdir_def)
next
  case False
  then have "2 ^ 63 \<le> unat loc" by (intro long_as_unsigned) simp
  with assms False show ?thesis by (simp add: dircache_seekdir_def)
qed

text \<open>
  Claim C2, at the token \<open>len\<close>.  The handle over the three records of the example reads
  to the end; \<open>dircache_telldir\<close> then returns 3, a token with \<open>0 \<le> 3 \<le> len\<close>; after
  \<open>dircache_rewinddir\<close>, \<open>dircache_seekdir\<close> with that token leaves the position at 0
  where the claim puts it at 3.
\<close>

theorem seekdir_rejects_end_token:
  "readdir_n 3 ex_cache \<lparr>pos = 0, ent = 0\<rparr> =
     Some ([Some ex_a, Some ex_b, Some ex_c], \<lparr>pos = 3, ent = 0\<rparr>) \<and>
   dircache_telldir \<lparr>pos = 3, ent = 0\<rparr> = 3 \<and>
   (0::int) \<le> sint (3 :: 64 word) \<and> sint (3 :: 64 word) \<le> 3 \<and>
   dircache_seekdir ex_cache (dircache_rewinddir \<lparr>pos = 3, ent = 0\<rparr>) 3 = Some \<lparr>pos = 0, ent = 0\<rparr>"
proof (intro conjI)
  have "readdir_n (Suc (Suc (Suc 0))) ex_cache \<lparr>pos = 0, ent = 0\<rparr> =
     Some ([Some ex_a, Some ex_b, Some ex_c], \<lparr>pos = 3, ent = 0\<rparr>)"
    by (simp add: dircache_readdir_def snapshot_def ex_cache_def)
  then show "readdir_n 3 ex_cache \<lparr>pos = 0, ent = 0\<rparr> =
     Some ([Some ex_a, Some ex_b, Some ex_c], \<lparr>pos = 3, ent = 0\<rparr>)"
    by (simp add: numeral_3_eq_3)
qed (simp_all add: snapshot_def ex_cache_def dircache_telldir_def
      dircache_seekdir_def dircache_rewinddir_def)

section \<open>The example states\<close>

lemma ex_snapshot: "snapshot ex_cache 0 = Some \<lparr>entries = [ex_a, ex_b, ex_c], nref = 1, addedat = 5\<rparr>"
  by (simp add: snapshot_def ex_cache_def)

lemma ex_closedir: "dircache_closedir \<lparr>pos = 0, ent = 0\<rparr> ex_cache = Some ex_closed"
  by (simp add: dircache_closedir_def dc_close_def snapshot_def ex_cache_def ex_closed_def)

lemma ex_invalidate: "dircache_invalidate ex_closed = ex_unlinked"
  by (simp add: dircache_invalidate_def emit_def ex_closed_def ex_cache_def ex_unlinked_def)

section \<open>What one call of \<open>dc_find_or_populate\<close> does\<close>

lemma find_hit:
  assumes "dirdb s path = Some a" and "snapshot s a = Some d"
  shows "dc_find_or_populate fs path s =
    Some (Some \<lparr>pos = 0, ent = a\<rparr>,
          s\<lparr>heap := (heap s)[a := Some (d\<lparr>nref := nref d + 1\<rparr>)],
            trace := trace s @ [EvFind path]\<rparr>)"
  using assms
  by (auto simp: dc_find_or_populate_def emit_def dc_build_around_ent_def snapshot_def Let_def
      split: if_splits)

lemma find_miss_no_dir:
  assumes "dirdb s path = None" and "\<not> can_open fs path"
  shows "dc_find_or_populate fs path s =
    Some (None, s\<lparr>trace := trace s @ [EvFind path, EvOpendir path]\<rparr>)"
  using assms by (simp add: dc_find_or_populate_def emit_def Let_def)

lemma find_miss_scan_fails:
  assumes "dirdb s path = None" and "can_open fs path" and "listing fs path = None"
  shows "dc_find_or_populate fs path s =
    Some (None, s\<lparr>trace := trace s @ [EvFind path, EvOpendir path, EvScandir path]\<rparr>)"
  using assms by (simp add: dc_find_or_populate_def emit_def libc_scandir_def Let_def)

lemma find_miss_populates:
  assumes "dirdb s path = None" and "can_open fs path" and "listing fs path = Some raw"
  shows "dc_find_or_populate fs path s =
    Some (Some \<lparr>pos = 0, ent = length (heap s)\<rparr>,
          s\<lparr>dirdb := (dirdb s)(path \<mapsto> length (heap s)),
            heap := heap s @ [Some \<lparr>entries = qsort (\<lambda>a b. strcmp (d_name a) (d_name b)) raw,
                                    nref = 1, addedat = clock fs\<rparr>],
            trace := trace s @ [EvFind path, EvOpendir path, EvScandir path,
                                EvWriteLock, EvInsert path, EvUnlock]\<rparr>)"
  using assms
  by (simp add: dc_find_or_populate_def emit_def libc_scandir_def push_back_all_eq
      new_dirent_t_def db_insert_def dc_build_around_ent_def snapshot_def Let_def)

lemma find_cases:
  obtains (hit) a d where "dirdb s path = Some a" "snapshot s a = Some d"
      "dc_find_or_populate fs path s =
         Some (Some \<lparr>pos = 0, ent = a\<rparr>,
               s\<lparr>heap := (heap s)[a := Some (d\<lparr>nref := nref d + 1\<rparr>)],
                 trace := trace s @ [EvFind path]\<rparr>)"
  | (dangling) a where "dirdb s path = Some a" "snapshot s a = None"
      "dc_find_or_populate fs path s = None"
  | (no_dir) "dirdb s path = None" "\<not> can_open fs path"
      "dc_find_or_populate fs path s =
         Some (None, s\<lparr>trace := trace s @ [EvFind path, EvOpendir path]\<rparr>)"
  | (scan_fails) "dirdb s path = None" "can_open fs path" "listing fs path = None"
      "dc_find_or_populate fs path s =
         Some (None, s\<lparr>trace := trace s @ [EvFind path, EvOpendir path, EvScandir path]\<rparr>)"
  | (populates) raw where "dirdb s path = None" "can_open fs path" "listing fs path = Some raw"
      "dc_find_or_populate fs path s =
         Some (Some \<lparr>pos = 0, ent = length (heap s)\<rparr>,
               s\<lparr>dirdb := (dirdb s)(path \<mapsto> length (heap s)),
                 heap := heap s @ [Some \<lparr>entries = qsort (\<lambda>a b. strcmp (d_name a) (d_name b)) raw,
                                         nref = 1, addedat = clock fs\<rparr>],
                 trace := trace s @ [EvFind path, EvOpendir path, EvScandir path,
                                     EvWriteLock, EvInsert path, EvUnlock]\<rparr>)"
proof (cases "dirdb s path")
  case None
  show ?thesis
  proof (cases "can_open fs path")
    case False
    with None show ?thesis using no_dir find_miss_no_dir by blast
  next
    case True
    show ?thesis
    proof (cases "listing fs path")
      case lnone: None
      with None True show ?thesis using scan_fails find_miss_scan_fails by blast
    next
      case (Some raw)
      with None True show ?thesis using populates find_miss_populates by blast
    qed
  qed
next
  case (Some a)
  show ?thesis
  proof (cases "snapshot s a")
    case None
    with Some have "dc_find_or_populate fs path s = None"
      by (auto simp: dc_find_or_populate_def emit_def dc_build_around_ent_def snapshot_def Let_def
          split: if_splits)
    with Some None show ?thesis using dangling by blast
  next
    case (Some d)
    with \<open>dirdb s path = Some a\<close> show ?thesis using hit find_hit by blast
  qed
qed

section \<open>Snapshots in the heap\<close>

lemma snapshot_heap_update:
  "snapshot s a = Some d \<Longrightarrow>
   snapshot (s\<lparr>heap := (heap s)[a := Some d']\<rparr>) b = (if b = a then Some d' else snapshot s b)"
  by (auto simp: snapshot_def split: if_splits)

lemma snapshot_heap_append:
  "snapshot (s\<lparr>heap := heap s @ [x]\<rparr>) b =
     (if b = length (heap s) then x else snapshot s b)"
  by (auto simp: snapshot_def nth_append)

lemma snapshot_heap_eq: "heap s' = heap s \<Longrightarrow> snapshot s' a = snapshot s a"
  by (simp add: snapshot_def)

lemma snapshot_live_less: "snapshot s a = Some d \<Longrightarrow> a < length (heap s)"
  by (simp add: snapshot_def split: if_splits)

lemma snapshot_trace_update [simp]: "snapshot (s\<lparr>trace := t\<rparr>) a = snapshot s a"
  by (simp add: snapshot_def)

lemma snapshot_dirdb_update [simp]: "snapshot (s\<lparr>dirdb := m\<rparr>) a = snapshot s a"
  by (simp add: snapshot_def)

lemma keeps_records_refl: "keeps_records s s"
  by (simp add: keeps_records_def)

lemma keeps_records_trans: "keeps_records s s' \<Longrightarrow> keeps_records s' s'' \<Longrightarrow> keeps_records s s''"
  unfolding keeps_records_def by (metis)

lemma find_keeps_records:
  "dc_find_or_populate fs path s = Some (r, s') \<Longrightarrow> keeps_records s s'"
proof (cases rule: find_cases [of s path fs])
  case (hit a d)
  assume "dc_find_or_populate fs path s = Some (r, s')"
  with hit have s': "s' = s\<lparr>heap := (heap s)[a := Some (d\<lparr>nref := nref d + 1\<rparr>)],
                 trace := trace s @ [EvFind path]\<rparr>" by simp
  show ?thesis unfolding keeps_records_def s'
    using hit(2) by (auto simp: snapshot_def nth_list_update split: if_splits)
next
  case (populates raw)
  assume "dc_find_or_populate fs path s = Some (r, s')"
  with populates have s': "s' = s\<lparr>dirdb := (dirdb s)(path \<mapsto> length (heap s)),
                 heap := heap s @ [Some \<lparr>entries = qsort (\<lambda>a b. strcmp (d_name a) (d_name b)) raw,
                                         nref = 1, addedat = clock fs\<rparr>],
                 trace := trace s @ [EvFind path, EvOpendir path, EvScandir path,
                                     EvWriteLock, EvInsert path, EvUnlock]\<rparr>" by simp
  show ?thesis unfolding keeps_records_def s'
    by (auto simp: snapshot_def nth_append split: if_splits)
qed (auto simp: keeps_records_def)

lemma close_keeps_records: "dc_close dir s = Some s' \<Longrightarrow> keeps_records s s'"
  by (auto simp: dc_close_def keeps_records_def snapshot_def nth_list_update
      split: option.splits if_splits)

lemma invalidate_keeps_heap: "heap (dircache_invalidate s) = heap s"
  by (simp add: dircache_invalidate_def emit_def Let_def)

lemma invalidate_keeps_records: "keeps_records s (dircache_invalidate s)"
  by (simp add: keeps_records_def snapshot_def invalidate_keeps_heap)

lemma scandir_state:
  "dircache_scandir fs path flt cmp s = Some (r, s') \<Longrightarrow>
   \<exists>r'. dc_find_or_populate fs path s = Some (r', s')"
  by (auto simp: dircache_scandir_def Let_def split: option.splits prod.splits)

lemma step_keeps_records: "step c s = Some s' \<Longrightarrow> keeps_records s s'"
proof (cases c)
  case (Opendir fs path)
  assume "step c s = Some s'"
  with Opendir show ?thesis
    by (auto simp: dircache_opendir_def dest: find_keeps_records)
next
  case (Closedir dir)
  assume "step c s = Some s'"
  with Closedir show ?thesis by (simp add: dircache_closedir_def close_keeps_records)
next
  case (Scandir fs path flt cmp)
  assume "step c s = Some s'"
  with Scandir show ?thesis
    by (auto dest!: scandir_state dest: find_keeps_records)
next
  case Invalidate
  assume "step c s = Some s'"
  with Invalidate show ?thesis using invalidate_keeps_records by auto
qed

lemma run_keeps_records: "run cs s = Some s' \<Longrightarrow> keeps_records s s'"
proof (induction cs arbitrary: s)
  case Nil
  then show ?case by (simp add: keeps_records_refl)
next
  case (Cons c cs)
  then show ?case
    by (auto split: option.splits intro: keeps_records_trans step_keeps_records)
qed

lemma scan_calls_append [simp]: "scan_calls (xs @ ys) = scan_calls xs @ scan_calls ys"
  by (simp add: scan_calls_def)

lemma readdir_n_cong:
  "snapshot s (ent dir) = Some d \<Longrightarrow> snapshot s' (ent dir) = Some d' \<Longrightarrow>
   entries d' = entries d \<Longrightarrow> readdir_n n s' dir = readdir_n n s dir"
proof (induction n arbitrary: dir)
  case 0
  then show ?case by simp
next
  case (Suc n)
  have rd: "dircache_readdir s' dir = dircache_readdir s dir"
    using Suc.prems by (simp add: dircache_readdir_def)
  show ?case
  proof (cases "dircache_readdir s dir")
    case None
    with rd show ?thesis by simp
  next
    case (Some p)
    obtain r dir' where p: "p = (r, dir')" by (cases p)
    with Some Suc.prems(1) have "ent dir' = ent dir"
      by (auto simp: dircache_readdir_def split: if_splits)
    with Suc.prems have "readdir_n n s' dir' = readdir_n n s dir'"
      by (intro Suc.IH) simp_all
    with rd Some p show ?thesis by simp
  qed
qed

lemma keeps_records_readdir_n:
  "keeps_records s s' \<Longrightarrow> snapshot s (ent dir) = Some d \<Longrightarrow>
   readdir_n n s' dir = readdir_n n s dir"
  unfolding keeps_records_def using readdir_n_cong by blast

section \<open>A failing scan\<close>

text \<open>
  Claim C7.  When the scan primitive runs for a path (the path is not in the map) and fails,
  \<open>dircache_opendir\<close> returns \<open>nullptr\<close> and \<open>dircache_scandir\<close> returns -1 without
  writing \<open>*namelist\<close>, and both leave the map and the heap of snapshots as they were: no
  snapshot is made and no entry inserted.
\<close>

theorem failed_scan_leaves_store:
  assumes "dirdb s path = None" and "scan_fails fs path"
  shows "(\<exists>s'. dircache_opendir fs path s = Some (None, s') \<and>
               dirdb s' = dirdb s \<and> heap s' = heap s) \<and>
         (\<exists>s'. dircache_scandir fs path flt cmp s = Some ((- 1, None), s') \<and>
               dirdb s' = dirdb s \<and> heap s' = heap s)"
proof (cases "can_open fs path")
  case False
  from find_miss_no_dir [OF assms(1) False] show ?thesis
    by (simp add: dircache_opendir_def dircache_scandir_def)
next
  case True
  with assms(2) have "listing fs path = None" by (simp add: scan_fails_def)
  from find_miss_scan_fails [OF assms(1) True this] show ?thesis
    by (simp add: dircache_opendir_def dircache_scandir_def)
qed

theorem failed_scan_leaves_store_witness:
  "dirdb ex_cache ''/does/not/exist'' = None \<and> scan_fails ex_fs ''/does/not/exist'' \<and>
   dircache_opendir ex_fs ''/does/not/exist'' ex_cache =
     Some (None, ex_cache\<lparr>trace := trace ex_cache @
                     [EvFind ''/does/not/exist'', EvOpendir ''/does/not/exist'']\<rparr>) \<and>
   dircache_scandir ex_fs ''/does/not/exist'' None None ex_cache =
     Some ((- 1, None), ex_cache\<lparr>trace := trace ex_cache @
                     [EvFind ''/does/not/exist'', EvOpendir ''/does/not/exist'']\<rparr>)"
proof -
  have miss: "dirdb ex_cache ''/does/not/exist'' = None" by (simp add: ex_cache_def)
  have fails: "scan_fails ex_fs ''/does/not/exist''" by (simp add: scan_fails_def ex_fs_def)
  from failed_scan_leaves_store [OF miss fails, of None None] miss fails show ?thesis
    by (auto simp: dircache_opendir_def dircache_scandir_def dc_find_or_populate_def emit_def
        ex_fs_def Let_def)
qed

section \<open>The lifetime of a snapshot\<close>

text \<open>
  Claim C3, as the code has it.  No run of open, close, scandir and invalidate calls destroys a
  snapshot: a live snapshot stays live with its records.  \<open>dircache_invalidate\<close> empties
  the map and leaves the snapshot in the heap whatever its reference count,
  and \<open>dircache_closedir\<close> only decrements the reference count.
\<close>

theorem snapshots_never_destroyed:
  assumes "snapshot s a = Some d"
  shows "(run cs s = Some s' \<longrightarrow>
            (\<exists>d'. snapshot s' a = Some d' \<and> entries d' = entries d \<and> addedat d' = addedat d)) \<and>
         dirdb (dircache_invalidate s) = Map.empty \<and>
         snapshot (dircache_invalidate s) a = Some d \<and>
         (ent dir = a \<longrightarrow>
            (\<exists>s''. dircache_closedir dir s = Some s'' \<and>
                   snapshot s'' a = Some (d\<lparr>nref := nref d - 1\<rparr>)))"
proof (intro conjI impI)
  assume "run cs s = Some s'"
  then have "keeps_records s s'" by (rule run_keeps_records)
  with assms show "\<exists>d'. snapshot s' a = Some d' \<and> entries d' = entries d \<and> addedat d' = addedat d"
    by (simp add: keeps_records_def)
next
  show "dirdb (dircache_invalidate s) = Map.empty"
    by (simp add: dircache_invalidate_def emit_def Let_def)
  show "snapshot (dircache_invalidate s) a = Some d"
    using assms by (simp add: snapshot_heap_eq [OF invalidate_keeps_heap])
next
  assume "ent dir = a"
  with assms show "\<exists>s''. dircache_closedir dir s = Some s'' \<and>
                   snapshot s'' a = Some (d\<lparr>nref := nref d - 1\<rparr>)"
    by (simp add: dircache_closedir_def dc_close_def snapshot_heap_update)
qed

theorem snapshots_never_destroyed_witness:
  "snapshot ex_cache 0 = Some \<lparr>entries = [ex_a, ex_b, ex_c], nref = 1, addedat = 5\<rparr> \<and>
   run [Closedir \<lparr>pos = 0, ent = 0\<rparr>, Invalidate] ex_cache = Some ex_unlinked \<and>
   snapshot ex_unlinked 0 = Some \<lparr>entries = [ex_a, ex_b, ex_c], nref = 0, addedat = 5\<rparr> \<and>
   dirdb (dircache_invalidate ex_cache) = Map.empty \<and>
   snapshot (dircache_invalidate ex_cache) 0 =
     Some \<lparr>entries = [ex_a, ex_b, ex_c], nref = 1, addedat = 5\<rparr> \<and>
   ent \<lparr>pos = 0, ent = 0\<rparr> = 0 \<and>
   dircache_closedir \<lparr>pos = 0, ent = 0\<rparr> ex_cache = Some ex_closed \<and>
   snapshot ex_closed 0 = Some \<lparr>entries = [ex_a, ex_b, ex_c], nref = 0, addedat = 5\<rparr>"
proof -
  have r: "run [Closedir \<lparr>pos = 0, ent = 0\<rparr>, Invalidate] ex_cache = Some ex_unlinked"
    by (simp add: ex_closedir ex_invalidate)
  have u: "snapshot ex_unlinked 0 = Some \<lparr>entries = [ex_a, ex_b, ex_c], nref = 0, addedat = 5\<rparr>"
    by (simp add: snapshot_def ex_unlinked_def)
  have c: "snapshot ex_closed 0 = Some \<lparr>entries = [ex_a, ex_b, ex_c], nref = 0, addedat = 5\<rparr>"
    by (simp add: snapshot_def ex_closed_def)
  from snapshots_never_destroyed [OF ex_snapshot,
      of "[Closedir \<lparr>pos = 0, ent = 0\<rparr>, Invalidate]" ex_unlinked "\<lparr>pos = 0, ent = 0\<rparr>"]
    r u c ex_snapshot ex_closedir
  show ?thesis by simp
qed

text \<open>
  Claim C3 as stated fails.  After open, close and invalidate on \<open>tree\<close> the snapshot is
  unlinked from the map and its only handle is closed (reference count 0), and it is still
  in the heap.
\<close>

theorem unlinked_unreferenced_snapshot_stays:
  "run [Opendir ex_fs ''tree'', Closedir \<lparr>pos = 0, ent = 0\<rparr>, Invalidate] empty_cache =
     Some ex_unlinked \<and>
   dirdb ex_unlinked = Map.empty \<and>
   snapshot ex_unlinked 0 = Some \<lparr>entries = [ex_a, ex_b, ex_c], nref = 0, addedat = 5\<rparr>"
  by (simp add: ex_opendir ex_closedir ex_invalidate) (simp add: ex_unlinked_def snapshot_def)

section \<open>Invalidation with a handle open\<close>

text \<open>
  Claim C4.  With a handle \<open>h\<close> on a live snapshot, \<open>dircache_invalidate\<close> leaves
  that snapshot as it is, so any number of reads on \<open>h\<close> return what they would have
  returned before; the map has no entry for the path any more, so the next
  \<open>dircache_opendir\<close> calls \<open>opendir\<close> (and \<open>scandir\<close>) on storage, a handle it
  returns refers to another snapshot, and the reads on \<open>h\<close> are still the same after it.
\<close>

theorem invalidation_safety:
  assumes "snapshot s (ent h) = Some d"
  shows "snapshot (dircache_invalidate s) (ent h) = Some d \<and>
         (\<forall>n. readdir_n n (dircache_invalidate s) h = readdir_n n s h) \<and>
         dirdb (dircache_invalidate s) path = None \<and>
         (\<exists>r s'. dircache_opendir fs path (dircache_invalidate s) = Some (r, s') \<and>
            scan_calls (trace s') =
              scan_calls (trace (dircache_invalidate s)) @
                (if can_open fs path then [EvOpendir path, EvScandir path] else [EvOpendir path]) \<and>
            (\<forall>h'. r = Some h' \<longrightarrow> ent h' \<noteq> ent h) \<and>
            snapshot s' (ent h) = Some d \<and>
            (\<forall>n. readdir_n n s' h = readdir_n n s h))"
proof -
  let ?s1 = "dircache_invalidate s"
  have live: "snapshot ?s1 (ent h) = Some d"
    using assms by (simp add: snapshot_heap_eq [OF invalidate_keeps_heap])
  have reads: "readdir_n n ?s1 h = readdir_n n s h" for n
    using invalidate_keeps_records assms by (rule keeps_records_readdir_n)
  have unlinked: "dirdb ?s1 path = None"
    by (simp add: dircache_invalidate_def emit_def Let_def)
  have lt: "ent h < length (heap ?s1)" using live by (rule snapshot_live_less)
  have "\<exists>r s'. dircache_opendir fs path ?s1 = Some (r, s') \<and>
            scan_calls (trace s') =
              scan_calls (trace ?s1) @
                (if can_open fs path then [EvOpendir path, EvScandir path] else [EvOpendir path]) \<and>
            (\<forall>h'. r = Some h' \<longrightarrow> ent h' \<noteq> ent h) \<and>
            snapshot s' (ent h) = Some d"
  proof (cases rule: find_cases [of ?s1 path fs])
    case no_dir
    with live show ?thesis by (simp add: dircache_opendir_def scan_calls_def)
  next
    case scan_fails
    with live show ?thesis by (simp add: dircache_opendir_def scan_calls_def)
  next
    case (populates raw)
    with live lt show ?thesis
      by (auto simp: dircache_opendir_def scan_calls_def snapshot_def nth_append
          split: if_splits)
  qed (use unlinked in simp_all)
  then obtain r s' where op: "dircache_opendir fs path ?s1 = Some (r, s')"
    and rest: "scan_calls (trace s') =
              scan_calls (trace ?s1) @
                (if can_open fs path then [EvOpendir path, EvScandir path] else [EvOpendir path])"
       "\<forall>h'. r = Some h' \<longrightarrow> ent h' \<noteq> ent h" "snapshot s' (ent h) = Some d"
    by blast
  from op have "keeps_records ?s1 s'"
    unfolding dircache_opendir_def by (rule find_keeps_records)
  then have "readdir_n n s' h = readdir_n n ?s1 h" for n
    using live by (rule keeps_records_readdir_n)
  with reads have "\<forall>n. readdir_n n s' h = readdir_n n s h" by simp
  with op rest live reads unlinked show ?thesis by blast
qed

theorem invalidation_safety_witness:
  "snapshot ex_cache (ent \<lparr>pos = 1, ent = 0\<rparr>) =
     Some \<lparr>entries = [ex_a, ex_b, ex_c], nref = 1, addedat = 5\<rparr> \<and>
   snapshot (dircache_invalidate ex_cache) 0 =
     Some \<lparr>entries = [ex_a, ex_b, ex_c], nref = 1, addedat = 5\<rparr> \<and>
   readdir_n 3 (dircache_invalidate ex_cache) \<lparr>pos = 1, ent = 0\<rparr> =
     Some ([Some ex_b, Some ex_c, None], \<lparr>pos = 3, ent = 0\<rparr>) \<and>
   readdir_n 3 ex_cache \<lparr>pos = 1, ent = 0\<rparr> =
     Some ([Some ex_b, Some ex_c, None], \<lparr>pos = 3, ent = 0\<rparr>) \<and>
   dirdb (dircache_invalidate ex_cache) ''tree'' = None \<and>
   (\<exists>s'. dircache_opendir ex_fs2 ''tree'' (dircache_invalidate ex_cache) =
            Some (Some \<lparr>pos = 0, ent = 1\<rparr>, s') \<and>
         scan_calls (trace s') =
           scan_calls (trace (dircache_invalidate ex_cache)) @ [EvOpendir ''tree'', EvScandir ''tree''] \<and>
         snapshot s' 0 = Some \<lparr>entries = [ex_a, ex_b, ex_c], nref = 1, addedat = 5\<rparr> \<and>
         map_option entries (snapshot s' 1) = Some [ex_a, ex_b, ex_c])"
proof -
  have live: "snapshot ex_cache (ent \<lparr>pos = 1, ent = 0\<rparr>) =
     Some \<lparr>entries = [ex_a, ex_b, ex_c], nref = 1, addedat = 5\<rparr>"
    by (simp add: ex_snapshot)
  have rd: "readdir_n (Suc (Suc (Suc 0))) ex_cache \<lparr>pos = 1, ent = 0\<rparr> =
     Some ([Some ex_b, Some ex_c, None], \<lparr>pos = 3, ent = 0\<rparr>)"
    by (simp add: dircache_readdir_def ex_snapshot)
  have inv: "dircache_invalidate ex_cache =
      \<lparr>dirdb = Map.empty,
       heap = [Some \<lparr>entries = [ex_a, ex_b, ex_c], nref = 1, addedat = 5\<rparr>],
       trace = [EvFind ''tree'', EvOpendir ''tree'', EvScandir ''tree'',
               EvWriteLock, EvInsert ''tree'', EvUnlock, EvWriteLock, EvClear, EvUnlock]\<rparr>"
    by (simp add: dircache_invalidate_def emit_def ex_cache_def)
  have srt: "qsort (\<lambda>a b. strcmp (d_name a) (d_name b)) [ex_c, ex_b, ex_a] = [ex_a, ex_b, ex_c]"
    by (simp add: qsort_def ex_names)
  have op: "dircache_opendir ex_fs2 ''tree'' (dircache_invalidate ex_cache) =
      Some (Some \<lparr>pos = 0, ent = 1\<rparr>,
        \<lparr>dirdb = [''tree'' \<mapsto> 1],
         heap = [Some \<lparr>entries = [ex_a, ex_b, ex_c], nref = 1, addedat = 5\<rparr>,
                 Some \<lparr>entries = [ex_a, ex_b, ex_c], nref = 1, addedat = 7\<rparr>],
         trace = [EvFind ''tree'', EvOpendir ''tree'', EvScandir ''tree'',
               EvWriteLock, EvInsert ''tree'', EvUnlock, EvWriteLock, EvClear, EvUnlock,
               EvFind ''tree'', EvOpendir ''tree'', EvScandir ''tree'',
               EvWriteLock, EvInsert ''tree'', EvUnlock]\<rparr>)"
    unfolding inv
    by (simp add: dircache_opendir_def dc_find_or_populate_def emit_def ex_fs2_def
      libc_scandir_def srt push_back_all_eq new_dirent_t_def db_insert_def
      dc_build_around_ent_def snapshot_def)
  from invalidation_safety [OF live, of "''tree''" ex_fs2] live rd op
  show ?thesis
    by (simp add: numeral_3_eq_3 snapshot_def ex_fs2_def)
qed

section \<open>The cache hit\<close>

lemma find_binds:
  assumes "dc_find_or_populate fs path s = Some (Some h, s')"
  shows "dirdb s' path = Some (ent h) \<and> pos h = 0 \<and> (\<exists>d. snapshot s' (ent h) = Some d)"
proof (cases rule: find_cases [of s path fs])
  case (hit a d)
  with assms show ?thesis by (auto simp: snapshot_heap_update)
next
  case (populates raw)
  with assms show ?thesis by (auto simp: snapshot_def)
qed (use assms in auto)

lemma find_keeps_binding:
  assumes "dc_find_or_populate fs q s = Some (r, s')" and "dirdb s path = Some a"
  shows "dirdb s' path = Some a"
proof (cases rule: find_cases [of s q fs])
  case (populates raw)
  with assms have "q \<noteq> path" by auto
  with populates assms show ?thesis by auto
qed (use assms in auto)

lemma step_keeps_binding:
  assumes "step c s = Some s'" and "c \<noteq> Invalidate" and "dirdb s path = Some a"
  shows "dirdb s' path = Some a"
proof (cases c)
  case (Opendir fs q)
  with assms show ?thesis by (auto simp: dircache_opendir_def dest: find_keeps_binding)
next
  case (Closedir dir)
  with assms show ?thesis
    by (auto simp: dircache_closedir_def dc_close_def split: option.splits)
next
  case (Scandir fs q flt cmp)
  with assms show ?thesis by (auto dest!: scandir_state dest: find_keeps_binding)
next
  case Invalidate
  with assms show ?thesis by simp
qed

lemma run_keeps_binding:
  "run cs s = Some s' \<Longrightarrow> Invalidate \<notin> set cs \<Longrightarrow> dirdb s path = Some a \<Longrightarrow>
   dirdb s' path = Some a"
proof (induction cs arbitrary: s)
  case Nil
  then show ?case by simp
next
  case (Cons c cs)
  from Cons.prems(1) obtain s1 where c: "step c s = Some s1" and cs: "run cs s1 = Some s'"
    by (auto split: option.splits)
  from Cons.prems(2) have "c \<noteq> Invalidate" and no: "Invalidate \<notin> set cs" by auto
  with c Cons.prems(3) have "dirdb s1 path = Some a" by (auto dest: step_keeps_binding)
  with cs no show ?case by (rule Cons.IH)
qed

text \<open>
  Claim C5.  After a successful \<open>dircache_opendir\<close> of a path and any run of calls without
  \<open>dircache_invalidate\<close>, a second \<open>dircache_opendir\<close> of the path succeeds whatever
  storage now holds, adds no \<open>opendir\<close> or \<open>scandir\<close> call to the trace, and returns a
  handle at position 0 on the same snapshot, on which any number of reads return what they
  return on the first handle.
\<close>

theorem cache_hit_avoids_rescan:
  assumes "dircache_opendir fs path s = Some (Some h1, s1)"
      and "run cs s1 = Some s2" and "Invalidate \<notin> set cs"
  shows "\<exists>h2 s3. dircache_opendir fs' path s2 = Some (Some h2, s3) \<and>
           scan_calls (trace s3) = scan_calls (trace s2) \<and>
           h2 = h1 \<and> pos h1 = 0 \<and>
           (\<forall>n. map_option fst (readdir_n n s3 h2) = map_option fst (readdir_n n s1 h1))"
proof -
  from assms(1) have bind: "dirdb s1 path = Some (ent h1)" and p0: "pos h1 = 0"
    and "\<exists>d. snapshot s1 (ent h1) = Some d"
    using find_binds [of fs path s h1 s1] by (simp_all add: dircache_opendir_def)
  then obtain d1 where d1: "snapshot s1 (ent h1) = Some d1" by blast
  from run_keeps_binding [OF assms(2,3) bind] have bind2: "dirdb s2 path = Some (ent h1)" .
  from run_keeps_records [OF assms(2)] have k12: "keeps_records s1 s2" .
  with d1 obtain d2 where d2: "snapshot s2 (ent h1) = Some d2"
    by (auto simp: keeps_records_def)
  let ?s3 = "s2\<lparr>heap := (heap s2)[ent h1 := Some (d2\<lparr>nref := nref d2 + 1\<rparr>)],
                 trace := trace s2 @ [EvFind path]\<rparr>"
  have op: "dircache_opendir fs' path s2 = Some (Some \<lparr>pos = 0, ent = ent h1\<rparr>, ?s3)"
    unfolding dircache_opendir_def using bind2 d2 by (rule find_hit)
  have h: "\<lparr>pos = 0, ent = ent h1\<rparr> = h1" using p0 by simp
  have "keeps_records s2 ?s3"
    using find_keeps_records op unfolding dircache_opendir_def by blast
  with k12 have "keeps_records s1 ?s3" by (rule keeps_records_trans)
  then have "readdir_n n ?s3 h1 = readdir_n n s1 h1" for n
    using d1 by (rule keeps_records_readdir_n)
  moreover have "scan_calls (trace ?s3) = scan_calls (trace s2)"
    by (simp add: scan_calls_def)
  ultimately show ?thesis using op h p0 by simp
qed

theorem cache_hit_avoids_rescan_witness:
  "dircache_opendir ex_fs ''tree'' empty_cache = Some (Some \<lparr>pos = 0, ent = 0\<rparr>, ex_cache) \<and>
   run [Closedir \<lparr>pos = 0, ent = 0\<rparr>] ex_cache = Some ex_closed \<and>
   Invalidate \<notin> set [Closedir \<lparr>pos = 0, ent = 0\<rparr>] \<and>
   dircache_opendir ex_gone ''tree'' ex_closed =
     Some (Some \<lparr>pos = 0, ent = 0\<rparr>, ex_cache\<lparr>trace := trace ex_cache @ [EvFind ''tree'']\<rparr>) \<and>
   scan_calls (trace (ex_cache\<lparr>trace := trace ex_cache @ [EvFind ''tree'']\<rparr>)) =
     scan_calls (trace ex_closed) \<and>
   map_option fst (readdir_n 4 (ex_cache\<lparr>trace := trace ex_cache @ [EvFind ''tree'']\<rparr>)
       \<lparr>pos = 0, ent = 0\<rparr>) =
     map_option fst (readdir_n 4 ex_cache \<lparr>pos = 0, ent = 0\<rparr>)"
proof -
  have r: "run [Closedir \<lparr>pos = 0, ent = 0\<rparr>] ex_cache = Some ex_closed"
    by (simp add: ex_closedir)
  have n: "Invalidate \<notin> set [Closedir \<lparr>pos = 0, ent = 0\<rparr>]" by simp
  have op: "dircache_opendir ex_gone ''tree'' ex_closed =
     Some (Some \<lparr>pos = 0, ent = 0\<rparr>, ex_cache\<lparr>trace := trace ex_cache @ [EvFind ''tree'']\<rparr>)"
    by (simp add: dircache_opendir_def dc_find_or_populate_def emit_def ex_closed_def
        ex_cache_def dc_build_around_ent_def snapshot_def)
  from cache_hit_avoids_rescan [OF ex_opendir r n, of ex_gone] ex_opendir r n op
  show ?thesis by auto
qed

section \<open>The order of a populated snapshot\<close>

lemma of_char_eq_0_iff: "(of_char c :: nat) = 0 \<longleftrightarrow> c = CHR 0x00"
proof -
  have "(of_char c :: nat) = of_char (CHR 0x00) \<longleftrightarrow> c = CHR 0x00"
    by (rule of_char_eq_iff)
  then show ?thesis by simp
qed

lemma strcmp_le_iff:
  "valid_name a \<Longrightarrow> valid_name b \<Longrightarrow> strcmp a b \<le> 0 \<longleftrightarrow> a \<le> b"
proof (induction a b rule: strcmp.induct)
  case 1
  then show ?case by simp
next
  case (2 y ys)
  then show ?case by simp
next
  case (3 x xs)
  then have "x \<noteq> CHR 0x00" by (auto simp: valid_name_def)
  then have "(of_char x :: nat) \<noteq> 0" by (simp add: of_char_eq_0_iff)
  then show ?case by simp
next
  case (4 x xs y ys)
  show ?case
  proof (cases "x = y")
    case True
    with 4 show ?thesis by (simp add: valid_name_def)
  next
    case False
    then have "(of_char x :: nat) < of_char y \<longleftrightarrow> (of_char x :: nat) \<le> of_char y"
      by (auto simp: le_less)
    with False show ?thesis by (simp add: less_char_def)
  qed
qed

lemma qsort_insert_insort_key:
  "valid_name (d_name x) \<Longrightarrow> list_all (\<lambda>e. valid_name (d_name e)) ys \<Longrightarrow>
   qsort_insert (\<lambda>a b. strcmp (d_name a) (d_name b)) x ys = insort_key d_name x ys"
  by (induction ys) (simp_all add: strcmp_le_iff)

lemma qsort_sort_key:
  "list_all (\<lambda>e. valid_name (d_name e)) xs \<Longrightarrow>
   qsort (\<lambda>a b. strcmp (d_name a) (d_name b)) xs = sort_key d_name xs"
proof (induction xs)
  case Nil
  then show ?case by (simp add: qsort_def)
next
  case (Cons x xs)
  then have ih: "qsort (\<lambda>a b. strcmp (d_name a) (d_name b)) xs = sort_key d_name xs" by simp
  have "list_all (\<lambda>e. valid_name (d_name e)) (sort_key d_name xs)"
    using Cons.prems by (simp add: list_all_iff)
  with Cons.prems ih show ?case
    by (simp add: qsort_def sort_key_def qsort_insert_insort_key)
qed

lemma sorted_by_strcmp:
  assumes "list_all (\<lambda>e. valid_name (d_name e)) es" and "sorted (map d_name es)"
  shows "sorted_wrt (\<lambda>a b. strcmp (d_name a) (d_name b) \<le> 0) es"
proof -
  from assms(2) have "sorted_wrt (\<lambda>a b. d_name a \<le> d_name b) es"
    by (simp add: sorted_map)
  moreover have "strcmp (d_name a) (d_name b) \<le> 0"
    if "a \<in> set es" "b \<in> set es" "d_name a \<le> d_name b" for a b
    using that assms(1) by (simp add: list_all_iff strcmp_le_iff)
  ultimately show ?thesis by (rule sorted_wrt_mono_rel [rotated])
qed

lemma opened_records_populates:
  assumes "dirdb s path = None" "can_open fs path" "listing fs path = Some raw"
  shows "opened_records fs path s = Some (qsort (\<lambda>a b. strcmp (d_name a) (d_name b)) raw)"
  using assms
  by (simp add: opened_records_def dircache_opendir_def dc_find_or_populate_def emit_def
      libc_scandir_def push_back_all_eq new_dirent_t_def db_insert_def dc_build_around_ent_def
      snapshot_def Let_def)

text \<open>
  Claim C8.  A successful population of a directory whose entry names are C strings gives a
  snapshot that holds the entries storage yielded, in ascending order of \<open>strcmp\<close> on the
  names; and a second population (of any path, in any state) whose storage yields the same
  set of entries, names unique, in whatever order, gives the same record sequence.
\<close>

theorem population_ordered_by_name:
  assumes "dirdb s path = None" and "can_open fs path" and "listing fs path = Some raw"
      and "list_all (\<lambda>e. valid_name (d_name e)) raw"
  shows "\<exists>es. opened_records fs path s = Some es \<and> mset es = mset raw \<and>
           sorted_wrt (\<lambda>a b. strcmp (d_name a) (d_name b) \<le> 0) es \<and>
           (dirdb s2 path2 = None \<and> can_open fs2 path2 \<and> listing fs2 path2 = Some raw2 \<and>
            set raw2 = set raw \<and> distinct (map d_name raw) \<and> distinct (map d_name raw2)
            \<longrightarrow> opened_records fs2 path2 s2 = Some es)"
proof -
  let ?es = "sort_key d_name raw"
  have q: "qsort (\<lambda>a b. strcmp (d_name a) (d_name b)) raw = ?es"
    using assms(4) by (rule qsort_sort_key)
  have rec: "opened_records fs path s = Some ?es"
    using opened_records_populates [OF assms(1-3)] q by simp
  have "list_all (\<lambda>e. valid_name (d_name e)) ?es"
    using assms(4) by (simp add: list_all_iff)
  then have srt: "sorted_wrt (\<lambda>a b. strcmp (d_name a) (d_name b) \<le> 0) ?es"
    by (rule sorted_by_strcmp) simp
  have "opened_records fs2 path2 s2 = Some ?es"
    if pop: "dirdb s2 path2 = None" "can_open fs2 path2" "listing fs2 path2 = Some raw2"
      and same: "set raw2 = set raw"
      and d1: "distinct (map d_name raw)" and d2: "distinct (map d_name raw2)"
  proof -
    from same assms(4) have v2: "list_all (\<lambda>e. valid_name (d_name e)) raw2"
      by (simp add: list_all_iff)
    from d1 d2 have "distinct raw" "distinct raw2" and inj: "inj_on d_name (set raw2)"
      by (simp_all add: distinct_map)
    with same have "mset raw2 = mset raw"
      by (simp add: set_eq_iff_mset_eq_distinct)
    then have "mset raw2 = mset ?es" by simp
    from this inj have "sort_key d_name raw2 = ?es"
      by (rule sort_key_inj_key_eq) simp
    with opened_records_populates [OF pop] qsort_sort_key [OF v2] show ?thesis by simp
  qed
  with rec srt show ?thesis by auto
qed

theorem population_ordered_by_name_witness:
  "dirdb empty_cache ''tree'' = None \<and> can_open ex_fs ''tree'' \<and>
   listing ex_fs ''tree'' = Some [ex_b, ex_a, ex_c] \<and>
   list_all (\<lambda>e. valid_name (d_name e)) [ex_b, ex_a, ex_c] \<and>
   dirdb ex_unlinked ''tree'' = None \<and> can_open ex_fs2 ''tree'' \<and>
   listing ex_fs2 ''tree'' = Some [ex_c, ex_b, ex_a] \<and>
   set [ex_c, ex_b, ex_a] = set [ex_b, ex_a, ex_c] \<and>
   distinct (map d_name [ex_b, ex_a, ex_c]) \<and> distinct (map d_name [ex_c, ex_b, ex_a]) \<and>
   opened_records ex_fs ''tree'' empty_cache = Some [ex_a, ex_b, ex_c] \<and>
   opened_records ex_fs2 ''tree'' ex_unlinked = Some [ex_a, ex_b, ex_c] \<and>
   sorted_wrt (\<lambda>a b. strcmp (d_name a) (d_name b) \<le> 0) [ex_a, ex_b, ex_c]"
proof -
  have h1: "dirdb empty_cache ''tree'' = None" by (simp add: empty_cache_def)
  have h2: "can_open ex_fs ''tree''" by (simp add: ex_fs_def)
  have h3: "listing ex_fs ''tree'' = Some [ex_b, ex_a, ex_c]" by (simp add: ex_fs_def)
  have h4: "list_all (\<lambda>e. valid_name (d_name e)) [ex_b, ex_a, ex_c]"
    by (simp add: valid_name_def ex_names)
  have g1: "dirdb ex_unlinked ''tree'' = None" by (simp add: ex_unlinked_def)
  have g2: "can_open ex_fs2 ''tree''" by (simp add: ex_fs2_def)
  have g3: "listing ex_fs2 ''tree'' = Some [ex_c, ex_b, ex_a]" by (simp add: ex_fs2_def)
  have g4: "set [ex_c, ex_b, ex_a] = set [ex_b, ex_a, ex_c]" by auto
  have g5: "distinct (map d_name [ex_b, ex_a, ex_c])" "distinct (map d_name [ex_c, ex_b, ex_a])"
    by (simp_all add: ex_names)
  have rec: "opened_records ex_fs ''tree'' empty_cache = Some [ex_a, ex_b, ex_c]"
    by (simp add: opened_records_def ex_opendir) (simp add: snapshot_def ex_cache_def)
  from population_ordered_by_name [OF h1 h2 h3 h4,
      of ex_unlinked "''tree''" ex_fs2 "[ex_c, ex_b, ex_a]"] rec g1 g2 g3 g4 g5
  have "opened_records ex_fs2 ''tree'' ex_unlinked = Some [ex_a, ex_b, ex_c] \<and>
        sorted_wrt (\<lambda>a b. strcmp (d_name a) (d_name b) \<le> 0) [ex_a, ex_b, ex_c]"
    by auto
  with h1 h2 h3 h4 g1 g2 g3 g4 g5 rec show ?thesis by simp
qed

section \<open>The lock around the map\<close>

text \<open>From a state with an empty trace, every call that returns starts with the lookup
  while the lock is not held.\<close>

lemma find_trace_starts_unlocked:
  assumes "trace s = []" and "dc_find_or_populate fs path s = Some (r, s')"
  shows "\<not> lock_ok Unlocked (trace s')"
  by (cases rule: find_cases [of s path fs]) (use assms in auto)

text \<open>
  Claim C9, at the first open of \<open>tree\<close>.  The trace of the call starts with the lookup
  in the map while the lock is not held (no \<open>read_lock\<close> is ever called), so the trace
  breaks the discipline; the insertion is between \<open>write_lock\<close> and \<open>unlock\<close>, and the
  trace of \<open>dircache_invalidate\<close> keeps the discipline.
\<close>

theorem lookup_takes_no_lock:
  "dircache_opendir ex_fs ''tree'' empty_cache = Some (Some \<lparr>pos = 0, ent = 0\<rparr>, ex_cache) \<and>
   trace ex_cache = [EvFind ''tree'', EvOpendir ''tree'', EvScandir ''tree'',
                     EvWriteLock, EvInsert ''tree'', EvUnlock] \<and>
   \<not> lock_ok Unlocked (trace ex_cache) \<and>
   lock_ok Unlocked (trace (dircache_invalidate empty_cache))"
  by (simp add: ex_opendir) (simp add: ex_cache_def dircache_invalidate_def emit_def empty_cache_def)

section \<open>The bulk listing\<close>

lemma scandir_collect_eq:
  "scandir_collect flt a es =
     map (Pair a) (filter (\<lambda>i. \<not> scandir_skip flt (es ! i)) [0..<length es])"
proof -
  have "foldl (\<lambda>acc i. if scandir_skip flt (es ! i) then acc else acc @ [(a, i)]) acc0 is =
        acc0 @ map (Pair a) (filter (\<lambda>i. \<not> scandir_skip flt (es ! i)) is)" for acc0 "is"
    by (induction "is" arbitrary: acc0) simp_all
  then show ?thesis by (simp add: scandir_collect_def)
qed

text \<open>
  On a cached path \<open>dircache_scandir\<close> returns the number of records on which the
  filter returns 0 (all of them without a filter) and pointers to them, in the order of the
  snapshot or as \<open>qsort\<close> with the comparator leaves them.
\<close>

lemma scandir_cached:
  assumes "dirdb s path = Some a" and "snapshot s a = Some d"
  shows "map_option fst (dircache_scandir fs path flt cmp s) =
     Some (int (length (filter (\<lambda>e. \<not> scandir_skip flt e) (entries d))),
           Some (case cmp of
                   None \<Rightarrow> scandir_collect flt a (entries d)
                 | Some c \<Rightarrow> qsort (\<lambda>p q. c (entries d ! snd p) (entries d ! snd q))
                              (scandir_collect flt a (entries d))))"
proof -
  let ?s' = "s\<lparr>heap := (heap s)[a := Some (d\<lparr>nref := nref d + 1\<rparr>)],
              trace := trace s @ [EvFind path]\<rparr>"
  have f: "dc_find_or_populate fs path s = Some (Some \<lparr>pos = 0, ent = a\<rparr>, ?s')"
    using assms by (rule find_hit)
  have sn: "snapshot ?s' a = Some (d\<lparr>nref := nref d + 1\<rparr>)"
    using assms(2) by (auto simp: snapshot_def split: if_splits)
  have len: "length (scandir_collect flt a (entries d)) =
      length (filter (\<lambda>e. \<not> scandir_skip flt e) (entries d))"
  proof -
    have "filter (\<lambda>e. \<not> scandir_skip flt e) (entries d) =
        map ((!) (entries d)) (filter (\<lambda>i. \<not> scandir_skip flt (entries d ! i)) [0..<length (entries d)])"
      (is "?l = map _ (filter ?P _)")
    proof -
      have "map ((!) (entries d)) (filter ?P [0..<length (entries d)]) =
          filter (\<lambda>e. \<not> scandir_skip flt e) (map ((!) (entries d)) [0..<length (entries d)])"
        by (simp add: filter_map comp_def)
      then show ?thesis by (simp add: map_nth)
    qed
    then show ?thesis by (simp add: scandir_collect_eq)
  qed
  have q: "qsort c [] = []" for c :: "nat \<times> nat \<Rightarrow> nat \<times> nat \<Rightarrow> int"
    by (simp add: qsort_def)
  show ?thesis
    using f sn len by (cases cmp) (auto simp: dircache_scandir_def Let_def q)
qed

text \<open>
  Claim C1, on the cached \<open>tree\<close> with the filter that accepts the names starting with
  \<open>a\<close> and no comparator.  \<open>dircache_scandir\<close> returns 2 and pointers to the records b and
  c, the records on which the filter returns 0; the records on which the filter holds are
  the single record a.
\<close>

theorem scandir_filter_inverted:
  "map_option fst (dircache_scandir ex_fs ''tree'' (Some ex_filter) None ex_cache) =
     Some (2, Some [(0, 1), (0, 2)]) \<and>
   map (deref_entry ex_cache) [(0, 1), (0, 2)] = [Some ex_b, Some ex_c] \<and>
   filter (\<lambda>e. ex_filter e \<noteq> 0) [ex_a, ex_b, ex_c] = [ex_a]"
proof (intro conjI)
  have up: "[0..<3] = [0, 1, 2]" by (simp add: upt_rec)
  have "scandir_collect (Some ex_filter) 0 [ex_a, ex_b, ex_c] = [(0, 1), (0, 2)]"
    by (simp add: scandir_collect_eq scandir_skip_def ex_filter_def ex_names up)
  then show "map_option fst (dircache_scandir ex_fs ''tree'' (Some ex_filter) None ex_cache) =
     Some (2, Some [(0, 1), (0, 2)])"
    by (simp add: dircache_scandir_def dc_find_or_populate_def emit_def ex_cache_def
        dc_build_around_ent_def snapshot_def)
  show "map (deref_entry ex_cache) [(0, 1), (0, 2)] = [Some ex_b, Some ex_c]"
    by (simp add: deref_entry_def snapshot_def ex_cache_def)
  show "filter (\<lambda>e. ex_filter e \<noteq> 0) [ex_a, ex_b, ex_c] = [ex_a]"
    by (simp add: ex_filter_def ex_names)
qed

end
